theory Spec2Isabelle
  imports Complex_Main "HOL-Library.Multiset"
begin

section \<open>Heads-up equity server: the simulation core of \<^verbatim>\<open>server_eval7_multi.py\<close>\<close>

text \<open>
  The development embeds the functions \<^verbatim>\<open>parse_two_card_hand\<close>, \<^verbatim>\<open>best5_eval\<close>,
  \<^verbatim>\<open>deal_remaining\<close>, \<^verbatim>\<open>Sampler\<close>, \<^verbatim>\<open>detect_is_range\<close> and \<^verbatim>\<open>equity_hu\<close>.
  Everything the module imports is a parameter, collected in the record \<open>world\<close>:
  the \<^verbatim>\<open>eval7\<close> library (card parser, range parser, hand evaluator), the generator
  \<^verbatim>\<open>random.Random\<close>, the rounding of binary floating-point arithmetic and the built-in
  \<^verbatim>\<open>sum\<close> on floats (whose way of adding depends on the version of the interpreter).
  A Python float is a real number; every floating-point operation of the source is the
  exact operation followed by the rounding \<open>fl\<close>. Infinities and NaN are outside the model.
  A Python \<^verbatim>\<open>str\<close> is a \<open>string\<close> whose characters stand for the code points below 256.
\<close>

subsection \<open>Cards and the deck (library \<^verbatim>\<open>eval7\<close>)\<close>

datatype rank = Two | Three | Four | Five | Six | Seven | Eight | Nine | Ten
  | Jack | Queen | King | Ace

datatype suit = Clubs | Diamonds | Hearts | Spades

datatype card = Card rank suit

definition ranks :: "rank list" where
  "ranks = [Two, Three, Four, Five, Six, Seven, Eight, Nine, Ten, Jack, Queen, King, Ace]"

definition suits :: "suit list" where
  "suits = [Clubs, Diamonds, Hearts, Spades]"

text \<open>\<^verbatim>\<open>eval7.Deck()\<close>: the 52 cards, rank by rank.\<close>

definition Deck :: "card list" where
  "Deck = concat (map (\<lambda>r. map (\<lambda>s. Card r s) suits) ranks)"

subsection \<open>Errors\<close>

text \<open>
  One constructor for each \<^verbatim>\<open>raise\<close> of the source and for each library call that can
  raise. All but the last are \<^verbatim>\<open>ValueError\<close>s with distinct messages;
  \<open>NoCompletedTrials\<close> is the \<^verbatim>\<open>RuntimeError\<close> of \<^verbatim>\<open>equity_hu\<close>.
\<close>

datatype error =
    TwoCardHandLength
  | InvalidCardCode
  | InvalidRangeText
  | BlockedFixedHand
  | UnsupportedElement
  | NoLiveCombos
  | InvalidBoardLength
  | NoCompletedTrials

subsection \<open>The imported world\<close>

text \<open>
  An element produced by iterating over an \<^verbatim>\<open>eval7.HandRange\<close>: the source accepts the
  shapes \<^verbatim>\<open>(Card, Card, weight)\<close> and \<^verbatim>\<open>((Card, Card), weight)\<close>; anything else makes
  the unpacking fail.
\<close>

datatype item =
    Flat card card real
  | Nested "card \<times> card" real
  | Malformed

record 'g world =
  rng_seed :: "int \<Rightarrow> 'g"
  rng_random :: "'g \<Rightarrow> real \<times> 'g"
  rng_shuffle :: "'g \<Rightarrow> card list \<Rightarrow> card list \<times> 'g"
  eval7_Card :: "string \<Rightarrow> card option"
  eval7_HandRange :: "string \<Rightarrow> item list option"
  eval7_evaluate :: "card list \<Rightarrow> int"
  fl :: "real \<Rightarrow> real"
  float_sum :: "real list \<Rightarrow> real"

subsection \<open>Python built-ins used by the source\<close>

text \<open>\<^verbatim>\<open>str.isspace\<close> on the code points below 256.\<close>

definition is_space :: "char \<Rightarrow> bool" where
  "is_space c = (let n = (of_char c :: nat) in
     (9 \<le> n \<and> n \<le> 13) \<or> (28 \<le> n \<and> n \<le> 32) \<or> n = 133 \<or> n = 160)"

definition strip :: "string \<Rightarrow> string" where
  "strip s = rev (dropWhile is_space (rev (dropWhile is_space s)))"

text \<open>The slice \<^verbatim>\<open>xs[:n]\<close>; a negative \<open>n\<close> counts from the end.\<close>

definition slice_to :: "int \<Rightarrow> 'a list \<Rightarrow> 'a list" where
  "slice_to n xs = (if 0 \<le> n then take (nat n) xs else take (length xs - nat (- n)) xs)"

subsection \<open>Utilities\<close>

definition parse_two_card_hand :: "'g world \<Rightarrow> string \<Rightarrow> error + card list" where
  "parse_two_card_hand W s0 =
     (let s = strip s0 in
      if length s \<noteq> 4 then Inl TwoCardHandLength
      else (case eval7_Card W (take 2 s) of
              None \<Rightarrow> Inl InvalidCardCode
            | Some c1 \<Rightarrow>
               (case eval7_Card W (drop 2 s) of
                  None \<Rightarrow> Inl InvalidCardCode
                | Some c2 \<Rightarrow> Inr [c1, c2])))"

definition best5_eval :: "'g world \<Rightarrow> card list \<Rightarrow> int" where
  "best5_eval W seven_cards = eval7_evaluate W seven_cards"

definition deal_remaining :: "'g world \<Rightarrow> card list \<Rightarrow> int \<Rightarrow> 'g \<Rightarrow> card list \<times> 'g" where
  "deal_remaining W dead n rng =
     (let deck = filter (\<lambda>c. c \<notin> set dead) Deck;
          (deck', rng') = rng_shuffle W rng deck
      in (slice_to n deck', rng'))"

subsection \<open>Range sampling\<close>

record sampler =
  text_src :: string
  is_range :: bool
  hr :: "item list"
  fixed :: "card list"

text \<open>
  \<^verbatim>\<open>Sampler(text, is_range)\<close> with its \<^verbatim>\<open>__post_init__\<close>. The attribute that the source
  does not set is the empty list here; it is never read. The field \<open>text_src\<close> is the
  attribute \<^verbatim>\<open>text\<close>.
\<close>

definition Sampler :: "'g world \<Rightarrow> string \<Rightarrow> bool \<Rightarrow> error + sampler" where
  "Sampler W t range_flag =
     (if range_flag then
        (case eval7_HandRange W t of
           None \<Rightarrow> Inl InvalidRangeText
         | Some items \<Rightarrow> Inr \<lparr>text_src = t, is_range = True, hr = items, fixed = []\<rparr>)
      else
        (case parse_two_card_hand W t of
           Inl e \<Rightarrow> Inl e
         | Inr cs \<Rightarrow> Inr \<lparr>text_src = t, is_range = False, hr = [], fixed = cs\<rparr>))"

text \<open>The first loop of \<^verbatim>\<open>Sampler.sample\<close>: unpack each element, skip blocked and
  degenerate combos, append the others with \<^verbatim>\<open>float(w)\<close>.\<close>

fun unpack :: "item \<Rightarrow> error + ((card \<times> card) \<times> real)" where
  "unpack (Flat c1 c2 w) = Inr ((c1, c2), w)"
| "unpack (Nested (c1, c2) w) = Inr ((c1, c2), w)"
| "unpack Malformed = Inl UnsupportedElement"

fun live_combos ::
  "(real \<Rightarrow> real) \<Rightarrow> card set \<Rightarrow> item list \<Rightarrow> ((card \<times> card) \<times> real) list
     \<Rightarrow> error + ((card \<times> card) \<times> real) list" where
  "live_combos f dead_set [] live = Inr live"
| "live_combos f dead_set (it # iterable) live =
     (case unpack it of
        Inl e \<Rightarrow> Inl e
      | Inr ((c1, c2), w) \<Rightarrow>
          if c1 \<in> dead_set \<or> c2 \<in> dead_set then live_combos f dead_set iterable live
          else if c1 = c2 then live_combos f dead_set iterable live
          else live_combos f dead_set iterable (live @ [((c1, c2), f w)]))"

text \<open>The second loop: the first combo with \<^verbatim>\<open>r <= acc\<close>, if there is one.\<close>

fun walk ::
  "(real \<Rightarrow> real) \<Rightarrow> real \<Rightarrow> real \<Rightarrow> ((card \<times> card) \<times> real) list \<Rightarrow> (card \<times> card) option" where
  "walk f r acc [] = None"
| "walk f r acc ((combo, w) # live) =
     (let acc' = f (acc + w) in
      if r \<le> acc' then Some combo else walk f r acc' live)"

definition sample :: "'g world \<Rightarrow> sampler \<Rightarrow> 'g \<Rightarrow> card list \<Rightarrow> error + (card list \<times> 'g)" where
  "sample W S rng dead =
     (let dead_set = set dead in
      if \<not> is_range S then
        (if list_ex (\<lambda>c. c \<in> dead_set) (fixed S) then Inl BlockedFixedHand
         else Inr (fixed S, rng))
      else
        (case live_combos (fl W) dead_set (hr S) [] of
           Inl e \<Rightarrow> Inl e
         | Inr live \<Rightarrow>
             if live = [] then Inl NoLiveCombos
             else
               (let total_w = float_sum W (map snd live);
                    (u, rng') = rng_random W rng;
                    r = fl W (u * total_w)
                in (case walk (fl W) r 0 live of
                      Some (c1, c2) \<Rightarrow> Inr ([c1, c2], rng')
                    | None \<Rightarrow> Inr ([fst (fst (last live)), snd (fst (last live))], rng')))))"

definition detect_is_range :: "string \<Rightarrow> bool" where
  "detect_is_range s0 =
     (let s = strip s0 in
      if length s = 4 then list_ex (\<lambda>ch. ch \<in> set s) '',;+() ''
      else True)"

subsection \<open>Core equity loop (heads-up)\<close>

text \<open>A source is a string or an already built \<^verbatim>\<open>Sampler\<close>.\<close>

datatype source = Text string | Built sampler

definition as_sampler :: "'g world \<Rightarrow> source \<Rightarrow> error + sampler" where
  "as_sampler W src =
     (case src of
        Built S \<Rightarrow> Inr S
      | Text s \<Rightarrow> Sampler W s (detect_is_range s))"

text \<open>The test \<^verbatim>\<open>len({*hero, *vill, *board}) != len(hero) + len(vill) + len(board)\<close>.\<close>

definition collides :: "card list \<Rightarrow> card list \<Rightarrow> card list \<Rightarrow> bool" where
  "collides hero vill board =
     (card (set (hero @ vill @ board)) \<noteq> length hero + length vill + length board)"

text \<open>
  The state of the loop is \<open>(h_w, v_w, ties, rng)\<close>. \<open>showdown\<close> is the body of the loop
  from \<^verbatim>\<open>dead = [*hero, *vill, *board]\<close> on; \<open>trial\<close> is the whole body, which leaves
  the counters alone when it reaches \<^verbatim>\<open>continue\<close>.
\<close>

type_synonym 'g loop_state = "int \<times> int \<times> int \<times> 'g"

definition showdown ::
  "'g world \<Rightarrow> card list \<Rightarrow> card list \<Rightarrow> card list \<Rightarrow> 'g loop_state \<Rightarrow> 'g loop_state" where
  "showdown W hero vill board st =
     (case st of (h_w, v_w, ties, rng) \<Rightarrow>
        (let dead = hero @ vill @ board;
             remain = 5 - int (length board);
             (draw, rng') = deal_remaining W dead remain rng;
             full_board = board @ draw;
             hs = best5_eval W (hero @ full_board);
             vs = best5_eval W (vill @ full_board)
         in if hs > vs then (h_w + 1, v_w, ties, rng')
            else if vs > hs then (h_w, v_w + 1, ties, rng')
            else (h_w, v_w, ties + 1, rng')))"

definition trial ::
  "'g world \<Rightarrow> sampler \<Rightarrow> sampler \<Rightarrow> card list \<Rightarrow> 'g loop_state \<Rightarrow> error + 'g loop_state" where
  "trial W hero_sampler vill_sampler board st =
     (case st of (h_w, v_w, ties, rng) \<Rightarrow>
        (case sample W hero_sampler rng board of
           Inl e \<Rightarrow> Inl e
         | Inr (hero, rng1) \<Rightarrow>
            (case sample W vill_sampler rng1 (board @ hero) of
               Inl e \<Rightarrow> Inl e
             | Inr (vill, rng2) \<Rightarrow>
                if collides hero vill board then
                  (case sample W vill_sampler rng2 (board @ hero) of
                     Inl e \<Rightarrow> Inl e
                   | Inr (vill', rng3) \<Rightarrow>
                      if collides hero vill' board then Inr (h_w, v_w, ties, rng3)
                      else Inr (showdown W hero vill' board (h_w, v_w, ties, rng3)))
                else Inr (showdown W hero vill board (h_w, v_w, ties, rng2)))))"

text \<open>\<^verbatim>\<open>for _ in range(iters)\<close>: the body, so many times, until an exception leaves it.\<close>

fun trials ::
  "'g world \<Rightarrow> sampler \<Rightarrow> sampler \<Rightarrow> card list \<Rightarrow> nat \<Rightarrow> 'g loop_state \<Rightarrow> error + 'g loop_state" where
  "trials W hero_sampler vill_sampler board 0 st = Inr st"
| "trials W hero_sampler vill_sampler board (Suc k) st =
     (case trial W hero_sampler vill_sampler board st of
        Inl e \<Rightarrow> Inl e
      | Inr st' \<Rightarrow> trials W hero_sampler vill_sampler board k st')"

record equity_result =
  hero_equity :: real
  villain_equity :: real
  hero_wins :: int
  villain_wins :: int
  ties :: int
  iters :: int

text \<open>An \<^verbatim>\<open>int\<close> that meets a float in an arithmetic operation is converted first.\<close>

definition float_of_int :: "'g world \<Rightarrow> int \<Rightarrow> real" where
  "float_of_int W i = fl W (of_int i)"

text \<open>\<^verbatim>\<open>(wins + 0.5 * ties) / total\<close>, with the rounding of each operation.\<close>

definition equity_of :: "'g world \<Rightarrow> int \<Rightarrow> int \<Rightarrow> int \<Rightarrow> real" where
  "equity_of W wins tie_count completed =
     fl W (fl W (float_of_int W wins + fl W (0.5 * float_of_int W tie_count))
           / float_of_int W completed)"

text \<open>
  \<^verbatim>\<open>equity_hu\<close>. \<^verbatim>\<open>random.Random(seed)\<close> is \<open>rng_seed W s\<close> for an integer seed; for
  \<^verbatim>\<open>seed=None\<close> the generator seeds itself from the operating system, and that state is
  the extra argument \<open>entropy\<close>. The parameter \<^verbatim>\<open>iters\<close> is \<open>iters_arg\<close>, the local \<^verbatim>\<open>total\<close>
  is \<open>completed\<close>; \<open>iters\<close> and \<open>ties\<close> are the fields of the result.
\<close>

definition equity_hu ::
  "'g world \<Rightarrow> source \<Rightarrow> source \<Rightarrow> card list option \<Rightarrow> int \<Rightarrow> int option \<Rightarrow> 'g
     \<Rightarrow> error + equity_result" where
  "equity_hu W hero_src vill_src board0 iters_arg seed entropy =
     (let rng = (case seed of None \<Rightarrow> entropy | Some s \<Rightarrow> rng_seed W s) in
      case as_sampler W hero_src of
        Inl e \<Rightarrow> Inl e
      | Inr hero_sampler \<Rightarrow>
         (case as_sampler W vill_src of
            Inl e \<Rightarrow> Inl e
          | Inr vill_sampler \<Rightarrow>
             (let board = (case board0 of None \<Rightarrow> [] | Some b \<Rightarrow> b) in
              if length board \<notin> {0, 3, 4, 5} then Inl InvalidBoardLength
              else
                (case trials W hero_sampler vill_sampler board (nat iters_arg) (0, 0, 0, rng) of
                   Inl e \<Rightarrow> Inl e
                 | Inr (h_w, v_w, tie_count, rng') \<Rightarrow>
                    (let completed = h_w + v_w + tie_count in
                     if completed = 0 then Inl NoCompletedTrials
                     else Inr \<lparr>hero_equity = equity_of W h_w tie_count completed,
                               villain_equity = equity_of W v_w tie_count completed,
                               hero_wins = h_w,
                               villain_wins = v_w,
                               ties = tie_count,
                               iters = completed\<rparr>)))))"

subsection \<open>A small world for running the model\<close>

text \<open>
  An instance of the world on which the definitions can be evaluated: cards are written
  as in \<^verbatim>\<open>eval7\<close> (\<^verbatim>\<open>As\<close>, \<^verbatim>\<open>Td\<close>), three range texts are known, the evaluator adds up the
  ranks, the generator is a counter (a draw is an eighth, a shuffle reverses the
  list), arithmetic is exact.
\<close>

definition rank_of_char :: "char \<Rightarrow> rank option" where
  "rank_of_char = map_of (zip ''23456789TJQKA'' ranks)"

definition suit_of_char :: "char \<Rightarrow> suit option" where
  "suit_of_char = map_of (zip ''cdhs'' suits)"

definition small_Card :: "string \<Rightarrow> card option" where
  "small_Card s =
     (case s of
        [r, u] \<Rightarrow>
          (case rank_of_char r of
             None \<Rightarrow> None
           | Some a \<Rightarrow> (case suit_of_char u of None \<Rightarrow> None | Some b \<Rightarrow> Some (Card a b)))
      | _ \<Rightarrow> None)"

definition small_HandRange :: "string \<Rightarrow> item list option" where
  "small_HandRange t =
     (if t = ''AKs'' then
        Some (map (\<lambda>s. Nested (Card Ace s, Card King s) 1) suits)
      else if t = ''AhKh,QhQd,AdAc'' then
        Some [Nested (Card Ace Hearts, Card King Hearts) 1,
              Nested (Card Queen Hearts, Card Queen Diamonds) 1,
              Nested (Card Ace Diamonds, Card Ace Clubs) 1]
      else if t = ''0(7h2d),AsAc'' then
        Some [Nested (Card Seven Hearts, Card Two Diamonds) 0,
              Nested (Card Ace Spades, Card Ace Clubs) 1]
      else None)"

fun rank_value :: "rank \<Rightarrow> int" where
  "rank_value Two = 2" | "rank_value Three = 3" | "rank_value Four = 4"
| "rank_value Five = 5" | "rank_value Six = 6" | "rank_value Seven = 7"
| "rank_value Eight = 8" | "rank_value Nine = 9" | "rank_value Ten = 10"
| "rank_value Jack = 11" | "rank_value Queen = 12" | "rank_value King = 13"
| "rank_value Ace = 14"

fun card_value :: "card \<Rightarrow> int" where
  "card_value (Card r s) = rank_value r"

definition small_world :: "nat world" where
  "small_world =
     \<lparr>rng_seed = (\<lambda>s. nat \<bar>s\<bar>),
      rng_random = (\<lambda>g. (real (g mod 8) / 8, g + 3)),
      rng_shuffle = (\<lambda>g xs. (rev xs, g + 2)),
      eval7_Card = small_Card,
      eval7_HandRange = small_HandRange,
      eval7_evaluate = (\<lambda>cs. sum_list (map card_value cs)),
      fl = (\<lambda>x. x),
      float_sum = sum_list\<rparr>"

text \<open>Samplers on which the sampling is run: ranges and fixed hands.\<close>

definition range_AKs :: sampler where
  "range_AKs =
     \<lparr>text_src = ''AKs'', is_range = True,
      hr = [Nested (Card Ace Clubs, Card King Clubs) 1,
            Flat (Card Ace Diamonds) (Card King Diamonds) 1,
            Nested (Card Ace Hearts, Card King Hearts) 1,
            Nested (Card Ace Spades, Card King Spades) 1],
      fixed = []\<rparr>"

definition range_three :: sampler where
  "range_three =
     \<lparr>text_src = ''AhKh,QhQd,AdAc'', is_range = True,
      hr = [Nested (Card Ace Hearts, Card King Hearts) 1,
            Nested (Card Queen Hearts, Card Queen Diamonds) 1,
            Nested (Card Ace Diamonds, Card Ace Clubs) 1],
      fixed = []\<rparr>"


text \<open>A range as the parser is not expected to produce it: an element with the same card
  twice, and a negative weight.\<close>

definition range_odd :: sampler where
  "range_odd =
     \<lparr>text_src = ''odd'', is_range = True,
      hr = [Nested (Card Ace Spades, Card Ace Spades) 1,
            Nested (Card King Spades, Card King Diamonds) (- 1)],
      fixed = []\<rparr>"

definition fixed_AsKs :: sampler where
  "fixed_AsKs =
     \<lparr>text_src = ''AsKs'', is_range = False, hr = [],
      fixed = [Card Ace Spades, Card King Spades]\<rparr>"

definition fixed_AsAs :: sampler where
  "fixed_AsAs =
     \<lparr>text_src = ''AsAs'', is_range = False, hr = [],
      fixed = [Card Ace Spades, Card Ace Spades]\<rparr>"

definition fixed_KsKd :: sampler where
  "fixed_KsKd =
     \<lparr>text_src = ''KsKd'', is_range = False, hr = [],
      fixed = [Card King Spades, Card King Diamonds]\<rparr>"

subsection \<open>Rounding\<close>

text \<open>
  The standard model of binary64 arithmetic, away from overflow and underflow: the
  rounded value is within the relative error \<open>2\<^sup>-\<^sup>5\<^sup>3\<close> of the exact one.
\<close>

definition rel_err :: "(real \<Rightarrow> real) \<Rightarrow> bool" where
  "rel_err f \<longleftrightarrow> (\<forall>x. \<bar>f x - x\<bar> \<le> \<bar>x\<bar> / 2 ^ 53)"

text \<open>
  Round-to-nearest also leaves 0 and every rounded value alone and is monotone.
\<close>

definition rounding :: "(real \<Rightarrow> real) \<Rightarrow> bool" where
  "rounding f \<longleftrightarrow>
     f 0 = 0 \<and> (\<forall>x. f (f x) = f x) \<and> (\<forall>x y. x \<le> y \<longrightarrow> f x \<le> f y) \<and> rel_err f"

text \<open>
  What round-to-nearest keeps at every magnitude, also where a small product underflows to
  a subnormal number or to 0.
\<close>

definition monotone_rounding :: "(real \<Rightarrow> real) \<Rightarrow> bool" where
  "monotone_rounding f \<longleftrightarrow>
     f 0 = 0 \<and> (\<forall>x. f (f x) = f x) \<and> (\<forall>x y. x \<le> y \<longrightarrow> f x \<le> f y)"

text \<open>
  The built-in \<^verbatim>\<open>sum\<close> adds from the left with one rounding for each addition, as the second
  loop of \<^verbatim>\<open>sample\<close> accumulates \<^verbatim>\<open>acc\<close>. (CPython does so before version 3.12; later
  versions compensate the rounding errors of a float sum.)
\<close>

definition sum_left :: "'g world \<Rightarrow> bool" where
  "sum_left W \<longleftrightarrow> (\<forall>ws. float_sum W ws = foldl (\<lambda>a w. fl W (a + w)) 0 ws)"

subsection \<open>Notions used in the statements\<close>

text \<open>The shuffle of the generator permutes the list.\<close>

definition shuffles :: "'g world \<Rightarrow> bool" where
  "shuffles W \<longleftrightarrow> (\<forall>g xs. mset (fst (rng_shuffle W g xs)) = mset xs)"

text \<open>The value of \<^verbatim>\<open>acc\<close> in the second loop of \<^verbatim>\<open>sample\<close> once entry \<open>k\<close> of the live list
  has been added.\<close>

definition acc_after :: "(real \<Rightarrow> real) \<Rightarrow> ((card \<times> card) \<times> real) list \<Rightarrow> nat \<Rightarrow> real" where
  "acc_after f live k = foldl (\<lambda>a w. f (a + w)) 0 (map snd (take (Suc k) live))"

text \<open>The hand that \<^verbatim>\<open>sample\<close> returns for an entry of the live list.\<close>

definition hand_of :: "(card \<times> card) \<times> real \<Rightarrow> card list" where
  "hand_of x = [fst (fst x), snd (fst x)]"

text \<open>An element of a range whose two cards are the same card.\<close>

definition degenerate :: "item \<Rightarrow> bool" where
  "degenerate it = (case unpack it of Inl e \<Rightarrow> False | Inr ((c1, c2), w) \<Rightarrow> c1 = c2)"

subsection \<open>The sequence of draws of a run\<close>

text \<open>
  A value obtained from the generator: the float of a \<^verbatim>\<open>rng.random()\<close> or the list as a
  \<^verbatim>\<open>rng.shuffle\<close> left it.
\<close>

datatype draw = Drawn real | Shuffled "card list"

text \<open>
  The world \<open>W\<close> with a generator that also keeps the list of the values it has returned.
\<close>

definition logging :: "'g world \<Rightarrow> ('g \<times> draw list) world" where
  "logging W =
     \<lparr>rng_seed = (\<lambda>s. (rng_seed W s, [])),
      rng_random = (\<lambda>(g, log).
         (fst (rng_random W g), (snd (rng_random W g), log @ [Drawn (fst (rng_random W g))]))),
      rng_shuffle = (\<lambda>(g, log) xs.
         (fst (rng_shuffle W g xs),
          (snd (rng_shuffle W g xs), log @ [Shuffled (fst (rng_shuffle W g xs))]))),
      eval7_Card = eval7_Card W,
      eval7_HandRange = eval7_HandRange W,
      eval7_evaluate = eval7_evaluate W,
      fl = fl W,
      float_sum = float_sum W\<rparr>"

text \<open>
  The world \<open>W\<close> with a generator that is nothing but the list of the values it will
  return, in order.
\<close>

definition replaying :: "'g world \<Rightarrow> draw list world" where
  "replaying W =
     \<lparr>rng_seed = (\<lambda>s. []),
      rng_random = (\<lambda>ds. case ds of Drawn u # rest \<Rightarrow> (u, rest) | _ \<Rightarrow> (0, ds)),
      rng_shuffle = (\<lambda>ds xs. case ds of Shuffled ys # rest \<Rightarrow> (ys, rest) | _ \<Rightarrow> (xs, ds)),
      eval7_Card = eval7_Card W,
      eval7_HandRange = eval7_HandRange W,
      eval7_evaluate = eval7_evaluate W,
      fl = fl W,
      float_sum = float_sum W\<rparr>"


section \<open>Properties\<close>

subsection \<open>Runs in the small world\<close>

lemma rel_err_small_world: "rel_err (fl small_world)"
  by (simp add: rel_err_def small_world_def)

lemma best5_eval_small_world: "best5_eval small_world cs = sum_list (map card_value cs)"
  by (simp add: best5_eval_def small_world_def)

lemma as_sampler_AsKs: "as_sampler small_world (Text ''AsKs'') = Inr fixed_AsKs"
  by (simp add: as_sampler_def Sampler_def detect_is_range_def strip_def is_space_def
      parse_two_card_hand_def small_world_def small_Card_def rank_of_char_def suit_of_char_def
      ranks_def suits_def fixed_AsKs_def)

lemma as_sampler_AsAs: "as_sampler small_world (Text ''AsAs'') = Inr fixed_AsAs"
  by (simp add: as_sampler_def Sampler_def detect_is_range_def strip_def is_space_def
      parse_two_card_hand_def small_world_def small_Card_def rank_of_char_def suit_of_char_def
      ranks_def suits_def fixed_AsAs_def)

lemma as_sampler_KsKd: "as_sampler small_world (Text ''KsKd'') = Inr fixed_KsKd"
  by (simp add: as_sampler_def Sampler_def detect_is_range_def strip_def is_space_def
      parse_two_card_hand_def small_world_def small_Card_def rank_of_char_def suit_of_char_def
      ranks_def suits_def fixed_KsKd_def)

lemma as_sampler_three: "as_sampler small_world (Text ''AhKh,QhQd,AdAc'') = Inr range_three"
  by (simp add: as_sampler_def Sampler_def detect_is_range_def strip_def is_space_def
      small_world_def small_HandRange_def range_three_def)

lemma sample_fixed_AsKs:
  "sample small_world fixed_AsKs g [] = Inr ([Card Ace Spades, Card King Spades], g)"
  by (simp add: sample_def fixed_AsKs_def)

lemma sample_three_0:
  "sample small_world range_three 0 [Card Ace Spades, Card King Spades]
     = Inr ([Card Ace Hearts, Card King Hearts], 3)"
  by (simp add: sample_def range_three_def small_world_def)

lemma sample_three_5:
  "sample small_world range_three 5 [Card Ace Spades, Card King Spades]
     = Inr ([Card Queen Hearts, Card Queen Diamonds], 8)"
  by (simp add: sample_def range_three_def small_world_def)

lemma sample_three_10:
  "sample small_world range_three 10 [Card Ace Spades, Card King Spades]
     = Inr ([Card Ace Hearts, Card King Hearts], 13)"
  by (simp add: sample_def range_three_def small_world_def)

lemma no_collision_AhKh:
  "\<not> collides [Card Ace Spades, Card King Spades] [Card Ace Hearts, Card King Hearts] []"
  by (simp add: collides_def)

lemma no_collision_QhQd:
  "\<not> collides [Card Ace Spades, Card King Spades] [Card Queen Hearts, Card Queen Diamonds] []"
  by (simp add: collides_def)

lemma deal_AhKh:
  "deal_remaining small_world
     [Card Ace Spades, Card King Spades, Card Ace Hearts, Card King Hearts] 5 g
   = ([Card Ace Diamonds, Card Ace Clubs, Card King Diamonds, Card King Clubs,
       Card Queen Spades], Suc (Suc g))"
  by (simp add: deal_remaining_def Deck_def ranks_def suits_def slice_to_def small_world_def)

lemma deal_QhQd:
  "deal_remaining small_world
     [Card Ace Spades, Card King Spades, Card Queen Hearts, Card Queen Diamonds] 5 g
   = ([Card Ace Hearts, Card Ace Diamonds, Card Ace Clubs, Card King Hearts,
       Card King Diamonds], Suc (Suc g))"
  by (simp add: deal_remaining_def Deck_def ranks_def suits_def slice_to_def small_world_def)

lemma showdown_AhKh:
  "showdown small_world [Card Ace Spades, Card King Spades]
     [Card Ace Hearts, Card King Hearts] [] (h, v, t, g) = (h, v, t + 1, Suc (Suc g))"
  by (simp add: showdown_def deal_AhKh best5_eval_small_world)

lemma showdown_QhQd:
  "showdown small_world [Card Ace Spades, Card King Spades]
     [Card Queen Hearts, Card Queen Diamonds] [] (h, v, t, g) = (h + 1, v, t, Suc (Suc g))"
  by (simp add: showdown_def deal_QhQd best5_eval_small_world)

lemma trial_three_0:
  "trial small_world fixed_AsKs range_three [] (h, v, t, 0) = Inr (h, v, t + 1, 5)"
  by (simp add: trial_def sample_fixed_AsKs sample_three_0 no_collision_AhKh showdown_AhKh)

lemma trial_three_5:
  "trial small_world fixed_AsKs range_three [] (h, v, t, 5) = Inr (h + 1, v, t, 10)"
  by (simp add: trial_def sample_fixed_AsKs sample_three_5 no_collision_QhQd showdown_QhQd)

lemma trial_three_10:
  "trial small_world fixed_AsKs range_three [] (h, v, t, 10) = Inr (h, v, t + 1, 15)"
  by (simp add: trial_def sample_fixed_AsKs sample_three_10 no_collision_AhKh showdown_AhKh)

lemma trials_three:
  "trials small_world fixed_AsKs range_three [] (nat 3) (0, 0, 0, 0) = Inr (1, 0, 2, 15)"
proof -
  have n: "nat 3 = Suc (Suc (Suc 0))" by simp
  show ?thesis
    unfolding n trials.simps trial_three_0 sum.case trial_three_5 trial_three_10 by simp
qed

lemma sample_fixed_AsAs:
  "sample small_world fixed_AsAs g [] = Inr ([Card Ace Spades, Card Ace Spades], g)"
  by (simp add: sample_def fixed_AsAs_def)

lemma sample_fixed_KsKd:
  "sample small_world fixed_KsKd g ([] @ [Card Ace Spades, Card Ace Spades])
     = Inr ([Card King Spades, Card King Diamonds], g)"
  by (simp add: sample_def fixed_KsKd_def)

lemma collision_AsAs:
  "collides [Card Ace Spades, Card Ace Spades] [Card King Spades, Card King Diamonds] []"
  by (simp add: collides_def)

lemma trial_AsAs:
  "trial small_world fixed_AsAs fixed_KsKd [] (h, v, t, g) = Inr (h, v, t, g)"
  using sample_fixed_KsKd [of g]
  by (simp add: trial_def sample_fixed_AsAs collision_AsAs)

lemma trials_AsAs:
  "trials small_world fixed_AsAs fixed_KsKd [] (nat 2) (0, 0, 0, 0) = Inr (0, 0, 0, 0)"
proof -
  have n: "nat 2 = Suc (Suc 0)" by simp
  show ?thesis unfolding n trials.simps trial_AsAs sum.case by simp
qed

lemma rng_seed_small_world: "rng_seed small_world s = nat \<bar>s\<bar>"
  by (simp add: small_world_def)

lemma equity_of_small_world:
  "equity_of small_world w t n = (of_int w + 0.5 * of_int t) / of_int n"
  by (simp add: equity_of_def float_of_int_def small_world_def)

lemma equity_hu_three:
  "equity_hu small_world (Text ''AsKs'') (Text ''AhKh,QhQd,AdAc'') None 3 (Some 0) e
     = Inr \<lparr>hero_equity = 2 / 3, villain_equity = 1 / 3,
            hero_wins = 1, villain_wins = 0, ties = 2, iters = 3\<rparr>"
  unfolding equity_hu_def as_sampler_AsKs as_sampler_three rng_seed_small_world
  using trials_three by (simp add: equity_of_small_world)

subsection \<open>Sampling never returns a dead card\<close>

lemma live_combos_inv:
  "live_combos f D items acc = Inr live \<Longrightarrow>
   (\<And>c1 c2 w. ((c1, c2), w) \<in> set acc \<Longrightarrow> c1 \<notin> D \<and> c2 \<notin> D \<and> c1 \<noteq> c2) \<Longrightarrow>
   ((c1, c2), w) \<in> set live \<Longrightarrow> c1 \<notin> D \<and> c2 \<notin> D \<and> c1 \<noteq> c2"
proof (induction items arbitrary: acc)
  case Nil
  then show ?case by simp
next
  case (Cons it items)
  show ?case
  proof (cases "unpack it")
    case (Inl e)
    with Cons.prems(1) show ?thesis by simp
  next
    case (Inr p)
    obtain a b v where p: "p = ((a, b), v)" by (metis surj_pair)
    show ?thesis
    proof (cases "a \<in> D \<or> b \<in> D \<or> a = b")
      case True
      with Cons.prems(1) Inr p have "live_combos f D items acc = Inr live"
        by (auto split: if_splits)
      from Cons.IH [OF this Cons.prems(2) Cons.prems(3)] show ?thesis by simp
    next
      case False
      with Cons.prems(1) Inr p
      have run: "live_combos f D items (acc @ [((a, b), f v)]) = Inr live"
        by simp
      have "\<And>c1 c2 w. ((c1, c2), w) \<in> set (acc @ [((a, b), f v)]) \<Longrightarrow>
              c1 \<notin> D \<and> c2 \<notin> D \<and> c1 \<noteq> c2"
        using False Cons.prems(2) by auto
      from Cons.IH [OF run this Cons.prems(3)] show ?thesis by simp
    qed
  qed
qed

lemma walk_in_live: "walk f r acc live = Some c \<Longrightarrow> c \<in> fst ` set live"
  by (induction f r acc live rule: walk.induct) (auto simp: Let_def split: if_splits)

text \<open>
  Claim C2. Whatever the sampler, the generator and the dead cards, a hand returned by
  \<open>sample\<close> shares no card with the dead cards; and a fixed hand that meets the dead cards
  makes \<open>sample\<close> fail with \<open>BlockedFixedHand\<close>, for every state of the generator and without
  a draw.
\<close>

theorem sample_avoids_dead:
  "(sample W S rng dead = Inr (cs, rng') \<longrightarrow> set cs \<inter> set dead = {}) \<and>
   (\<not> is_range S \<and> set (fixed S) \<inter> set dead \<noteq> {} \<longrightarrow>
      sample W S rng dead = Inl BlockedFixedHand)"
proof (intro conjI impI)
  assume ok: "sample W S rng dead = Inr (cs, rng')"
  show "set cs \<inter> set dead = {}"
  proof (cases "is_range S")
    case False
    with ok show ?thesis
      by (auto simp: sample_def list_ex_iff split: if_splits)
  next
    case True
    from ok True obtain live where
      live: "live_combos (fl W) (set dead) (hr S) [] = Inr live" and ne: "live \<noteq> []"
      by (auto simp: sample_def Let_def split: sum.splits if_splits)
    have inv: "\<And>c1 c2 w. ((c1, c2), w) \<in> set live \<Longrightarrow> c1 \<notin> set dead \<and> c2 \<notin> set dead"
      using live_combos_inv [OF live] by simp
    obtain c1 c2 where cs: "cs = [c1, c2]" and mem: "(c1, c2) \<in> fst ` set live"
      using ok True live ne
      by (auto simp: sample_def Let_def split: prod.splits option.splits dest!: walk_in_live)
    from mem inv show ?thesis unfolding cs by auto
  qed
next
  assume "\<not> is_range S \<and> set (fixed S) \<inter> set dead \<noteq> {}"
  then show "sample W S rng dead = Inl BlockedFixedHand"
    by (auto simp: sample_def list_ex_iff)
qed

theorem sample_avoids_dead_witness:
  "sample small_world range_AKs 1 [Card Ace Clubs]
     = Inr ([Card Ace Diamonds, Card King Diamonds], 4) \<and>
   set [Card Ace Diamonds, Card King Diamonds] \<inter> set [Card Ace Clubs] = {} \<and>
   \<not> is_range fixed_AsKs \<and>
   set (fixed fixed_AsKs) \<inter> set [Card King Spades] \<noteq> {} \<and>
   sample small_world fixed_AsKs 7 [Card King Spades] = Inl BlockedFixedHand"
proof -
  have run: "sample small_world range_AKs 1 [Card Ace Clubs]
               = Inr ([Card Ace Diamonds, Card King Diamonds], 4)"
    by (simp add: sample_def small_world_def range_AKs_def)
  have blocked: "\<not> is_range fixed_AsKs \<and> set (fixed fixed_AsKs) \<inter> set [Card King Spades] \<noteq> {}"
    by (simp add: fixed_AsKs_def)
  from run blocked
    sample_avoids_dead [of small_world range_AKs 1 "[Card Ace Clubs]"
      "[Card Ace Diamonds, Card King Diamonds]" 4]
    sample_avoids_dead [of small_world fixed_AsKs 7 "[Card King Spades]"]
  show ?thesis by blast
qed

subsection \<open>Fixed hand or range\<close>

text \<open>
  Claim C10. A string source of \<open>equity_hu\<close> becomes a fixed two-card hand, parsed by
  \<open>parse_two_card_hand\<close>, exactly when the stripped string has four characters and none of
  them is a comma, a semicolon, a plus sign, a parenthesis or a space; every other string
  is handed to the range parser of the library.
\<close>

theorem as_sampler_fixed_iff:
  "as_sampler W (Text s) =
     (if length (strip s) = 4 \<and> set (strip s) \<inter> set '',;+() '' = {}
      then (case parse_two_card_hand W s of
              Inl e \<Rightarrow> Inl e
            | Inr cs \<Rightarrow> Inr \<lparr>text_src = s, is_range = False, hr = [], fixed = cs\<rparr>)
      else (case eval7_HandRange W s of
              None \<Rightarrow> Inl InvalidRangeText
            | Some items \<Rightarrow> Inr \<lparr>text_src = s, is_range = True, hr = items, fixed = []\<rparr>))"
  by (auto simp: as_sampler_def Sampler_def detect_is_range_def Let_def list_ex_iff)

theorem as_sampler_fixed_iff_witness:
  "as_sampler small_world (Text '' AsKs  '') =
     Inr \<lparr>text_src = '' AsKs  '', is_range = False, hr = [],
          fixed = [Card Ace Spades, Card King Spades]\<rparr> \<and>
   as_sampler small_world (Text ''A sK'') = Inl InvalidRangeText \<and>
   as_sampler small_world (Text ''AKs'') =
     Inr \<lparr>text_src = ''AKs'', is_range = True,
          hr = map (\<lambda>s. Nested (Card Ace s, Card King s) 1) suits, fixed = []\<rparr>"
proof -
  have a: "strip '' AsKs  '' = ''AsKs''" and b: "strip ''A sK'' = ''A sK''"
    and c: "strip ''AKs'' = ''AKs''"
    by (simp_all add: strip_def is_space_def)
  have p: "parse_two_card_hand small_world '' AsKs  '' = Inr [Card Ace Spades, Card King Spades]"
    by (simp add: parse_two_card_hand_def a small_world_def small_Card_def rank_of_char_def
        suit_of_char_def ranks_def suits_def)
  have r: "eval7_HandRange small_world ''A sK'' = None"
    "eval7_HandRange small_world ''AKs'' = Some (map (\<lambda>s. Nested (Card Ace s, Card King s) 1) suits)"
    by (simp_all add: small_world_def small_HandRange_def)
  show ?thesis
    using as_sampler_fixed_iff [of small_world "'' AsKs  ''"]
      as_sampler_fixed_iff [of small_world "''A sK''"]
      as_sampler_fixed_iff [of small_world "''AKs''"]
    by (simp add: a b c p r)
qed

subsection \<open>Determinism under a seed\<close>


lemma logging_simps [simp]:
  "fl (logging W) = fl W" "float_sum (logging W) = float_sum W"
  "eval7_Card (logging W) = eval7_Card W" "eval7_HandRange (logging W) = eval7_HandRange W"
  "eval7_evaluate (logging W) = eval7_evaluate W"
  "rng_random (logging W) (g, l)
     = (fst (rng_random W g), (snd (rng_random W g), l @ [Drawn (fst (rng_random W g))]))"
  "rng_shuffle (logging W) (g, l) xs
     = (fst (rng_shuffle W g xs), (snd (rng_shuffle W g xs), l @ [Shuffled (fst (rng_shuffle W g xs))]))"
  by (simp_all add: logging_def)

lemma replaying_simps [simp]:
  "fl (replaying W) = fl W" "float_sum (replaying W) = float_sum W"
  "eval7_Card (replaying W) = eval7_Card W" "eval7_HandRange (replaying W) = eval7_HandRange W"
  "eval7_evaluate (replaying W) = eval7_evaluate W"
  "rng_random (replaying W) (Drawn u # rest) = (u, rest)"
  "rng_shuffle (replaying W) (Shuffled ys # rest) xs = (ys, rest)"
  by (simp_all add: replaying_def)

















subsection \<open>Retry once, then skip\<close>

lemma sample_error_indep:
  "sample W S g dead = Inr x \<Longrightarrow> \<exists>y. sample W S g' dead = Inr y"
  by (auto simp: sample_def Let_def split: if_splits sum.splits prod.splits option.splits)

lemma overlap_collides:
  assumes "set hero \<inter> set vill \<noteq> {} \<or> set hero \<inter> set board \<noteq> {} \<or> set vill \<inter> set board \<noteq> {}"
  shows "collides hero vill board"
proof -
  have "\<not> distinct (hero @ vill @ board)" using assms by auto
  then have "card (set (hero @ vill @ board)) \<noteq> length (hero @ vill @ board)"
    using card_distinct by blast
  then show ?thesis by (simp add: collides_def)
qed

text \<open>
  Claim C7. In a trial whose hero and villain hands were sampled, if the two hands and the
  board are not pairwise disjoint, or a card is repeated among them (the test of the
  source), the villain is sampled once more, from the generator as the first villain draw
  left it, and that draw succeeds; if the cards still collide the trial ends without an
  error, with the three counters as they were and the generator as the second draw left
  it; otherwise the trial goes on to the showdown with the new villain hand.
\<close>

theorem trial_retry_then_skip:
  assumes "sample W hero_sampler rng board = Inr (hero, rng1)"
    and "sample W vill_sampler rng1 (board @ hero) = Inr (vill, rng2)"
    and "set hero \<inter> set vill \<noteq> {} \<or> set hero \<inter> set board \<noteq> {}
         \<or> set vill \<inter> set board \<noteq> {} \<or> collides hero vill board"
  shows "\<exists>vill' rng3.
           sample W vill_sampler rng2 (board @ hero) = Inr (vill', rng3) \<and>
           trial W hero_sampler vill_sampler board (h_w, v_w, n_ties, rng) =
             (if collides hero vill' board then Inr (h_w, v_w, n_ties, rng3)
              else Inr (showdown W hero vill' board (h_w, v_w, n_ties, rng3)))"
proof -
  from assms(3) have hit: "collides hero vill board"
    using overlap_collides [of hero vill board] by blast
  from sample_error_indep [OF assms(2), of rng2]
  obtain vill' rng3 where "sample W vill_sampler rng2 (board @ hero) = Inr (vill', rng3)"
    by auto
  with assms(1,2) hit show ?thesis by (simp add: trial_def)
qed

theorem trial_retry_then_skip_witness:
  "sample small_world fixed_AsAs 5 [] = Inr ([Card Ace Spades, Card Ace Spades], 5) \<and>
   sample small_world fixed_KsKd 5 ([] @ [Card Ace Spades, Card Ace Spades])
     = Inr ([Card King Spades, Card King Diamonds], 5) \<and>
   collides [Card Ace Spades, Card Ace Spades] [Card King Spades, Card King Diamonds] [] \<and>
   trial small_world fixed_AsAs fixed_KsKd [] (2, 1, 0, 5) = Inr (2, 1, 0, 5)"
proof -
  note a = sample_fixed_AsAs [of 5]
  note b = sample_fixed_KsKd [of 5]
  note c = collision_AsAs
  have "set [Card Ace Spades, Card Ace Spades] \<inter> set [Card King Spades, Card King Diamonds] \<noteq> {}
      \<or> set [Card Ace Spades, Card Ace Spades] \<inter> set [] \<noteq> {}
      \<or> set [Card King Spades, Card King Diamonds] \<inter> set [] \<noteq> {}
      \<or> collides [Card Ace Spades, Card Ace Spades] [Card King Spades, Card King Diamonds] []"
    using c by blast
  from trial_retry_then_skip [OF a b this, of 2 1 0] a b c show ?thesis by auto
qed

subsection \<open>Finalisation\<close>

text \<open>
  Claim C8. When the samplers are built, the board has an admissible length and the loop
  ends with the counters \<open>h_w\<close>, \<open>v_w\<close>, \<open>n_ties\<close>: if their sum is 0, \<open>equity_hu\<close> fails with
  \<open>NoCompletedTrials\<close>; otherwise it returns a result that reports the three counters and
  whose \<open>iters\<close> is their sum.
\<close>

theorem equity_hu_finalize:
  assumes "as_sampler W hero_src = Inr hero_sampler"
    and "as_sampler W vill_src = Inr vill_sampler"
    and "board = (case board0 of None \<Rightarrow> [] | Some b \<Rightarrow> b)"
    and "length board \<in> {0, 3, 4, 5}"
    and "rng = (case seed of None \<Rightarrow> entropy | Some s \<Rightarrow> rng_seed W s)"
    and "trials W hero_sampler vill_sampler board (nat iters_arg) (0, 0, 0, rng)
           = Inr (h_w, v_w, n_ties, rng')"
  shows "(h_w + v_w + n_ties = 0 \<longrightarrow>
            equity_hu W hero_src vill_src board0 iters_arg seed entropy = Inl NoCompletedTrials) \<and>
         (h_w + v_w + n_ties \<noteq> 0 \<longrightarrow>
            (\<exists>res. equity_hu W hero_src vill_src board0 iters_arg seed entropy = Inr res \<and>
                   iters res = h_w + v_w + n_ties \<and> hero_wins res = h_w \<and>
                   villain_wins res = v_w \<and> ties res = n_ties))"
  using assms by (simp add: equity_hu_def Let_def)

theorem equity_hu_finalize_witness:
  "equity_hu small_world (Text ''AsAs'') (Text ''KsKd'') None 2 (Some 0) 7
     = Inl NoCompletedTrials \<and>
   (\<exists>res. equity_hu small_world (Text ''AsKs'') (Text ''AhKh,QhQd,AdAc'') None 3 (Some 0) 7
             = Inr res \<and>
          iters res = 3 \<and> hero_wins res = 1 \<and> villain_wins res = 0 \<and> ties res = 2)"
proof -
  have b: "[] = (case None :: card list option of None \<Rightarrow> [] | Some b \<Rightarrow> b)"
    and l: "length ([] :: card list) \<in> {0, 3, 4, 5}"
    and g: "(0::nat) = (case Some 0 of None \<Rightarrow> 7 | Some s \<Rightarrow> rng_seed small_world s)"
    by (simp_all add: small_world_def)
  from equity_hu_finalize [OF as_sampler_AsAs as_sampler_KsKd b l g trials_AsAs]
    equity_hu_finalize [OF as_sampler_AsKs as_sampler_three b l g trials_three]
  show ?thesis by simp
qed

subsection \<open>The two equities add up to one\<close>

text \<open>
  One rounded operation on a value known up to the factors \<open>lo\<close> and \<open>hi\<close> widens the
  factors by \<open>1 - e\<close> and \<open>1 + e\<close>.
\<close>

lemma rel_err_step:
  assumes f: "rel_err f" and e: "e = 1 / 2 ^ 53"
    and c: "0 \<le> c" and lo: "0 \<le> lo" and l: "c * lo \<le> y" and h: "y \<le> c * hi"
  shows "c * (lo * (1 - e)) \<le> f y \<and> f y \<le> c * (hi * (1 + e))"
proof -
  have y0: "0 \<le> y" using c lo l by (meson mult_nonneg_nonneg order_trans)
  have e0: "0 \<le> e" "e \<le> 1" using e by simp_all
  from f have "\<bar>f y - y\<bar> \<le> \<bar>y\<bar> / 2 ^ 53" by (simp add: rel_err_def)
  also have "\<bar>y\<bar> / 2 ^ 53 = y * e" using y0 e by simp
  finally have b: "y - y * e \<le> f y" "f y \<le> y + y * e" by (simp_all add: abs_le_iff)
  have "c * lo * (1 - e) \<le> y * (1 - e)" using l e0 by (intro mult_right_mono) simp_all
  with b(1) have 1: "c * (lo * (1 - e)) \<le> f y" by (simp add: algebra_simps)
  have "y * (1 + e) \<le> c * hi * (1 + e)" using h e0 by (intro mult_right_mono) simp_all
  with b(2) have 2: "f y \<le> c * (hi * (1 + e))" by (simp add: algebra_simps)
  from 1 2 show ?thesis ..
qed

lemma equity_of_bounds:
  assumes f: "rel_err (fl W)" and e: "e = 1 / 2 ^ 53"
    and a: "0 \<le> a" and t: "0 \<le> t" and n: "0 < n"
  shows "(of_int a + of_int t / 2) / of_int n * ((1 - e) ^ 4 / (1 + e)) \<le> equity_of W a t n
       \<and> equity_of W a t n \<le> (of_int a + of_int t / 2) / of_int n * ((1 + e) ^ 4 / (1 - e))"
proof -
  let ?f = "fl W"
  have e0: "0 < e" "e < 1" using e by simp_all
  define A where "A = ?f (of_int a)"
  define T where "T = ?f (of_int t)"
  define P where "P = ?f (0.5 * T)"
  define S where "S = ?f (A + P)"
  define N where "N = ?f (of_int n)"
  define m where "m = (of_int a + of_int t / 2 :: real)"
  have m0: "0 \<le> m" using a t by (simp add: m_def)
  have ra: "0 \<le> (of_int a :: real)" and rt: "0 \<le> (of_int t :: real)" and rn: "0 < (of_int n :: real)"
    using a t n by simp_all
  have A: "of_int a * (1 * (1 - e)) \<le> A \<and> A \<le> of_int a * (1 * (1 + e))"
    unfolding A_def using rel_err_step [OF f e ra, of 1 "of_int a" 1] by simp
  have T: "of_int t * (1 * (1 - e)) \<le> T \<and> T \<le> of_int t * (1 * (1 + e))"
    unfolding T_def using rel_err_step [OF f e rt, of 1 "of_int t" 1] by simp
  have hT: "of_int t / 2 * (1 - e) \<le> 0.5 * T \<and> 0.5 * T \<le> of_int t / 2 * (1 + e)"
    using T by simp
  have t2: "0 \<le> (of_int t / 2 :: real)" using rt by simp
  have P: "of_int t / 2 * ((1 - e) * (1 - e)) \<le> P \<and> P \<le> of_int t / 2 * ((1 + e) * (1 + e))"
    unfolding P_def using rel_err_step [OF f e t2, of "1 - e" "0.5 * T" "1 + e"] hT e0 by simp
  have "of_int a * ((1 - e) * (1 - e)) \<le> of_int a * (1 - e)"
    using ra e0 by (intro mult_left_mono) (simp_all add: mult_left_le)
  with A have lowA: "of_int a * ((1 - e) * (1 - e)) \<le> A" by simp
  have "of_int a * (1 + e) \<le> of_int a * ((1 + e) * (1 + e))"
    using ra e0 by (intro mult_left_mono) simp_all
  with A have highA: "A \<le> of_int a * ((1 + e) * (1 + e))" by simp
  have split_m: "m * z = of_int a * z + of_int t / 2 * z" for z
    by (simp add: m_def distrib_right)
  have AP: "m * ((1 - e) * (1 - e)) \<le> A + P \<and> A + P \<le> m * ((1 + e) * (1 + e))"
    unfolding split_m using lowA highA P by linarith
  have S: "m * ((1 - e) * (1 - e) * (1 - e)) \<le> S \<and> S \<le> m * ((1 + e) * (1 + e) * (1 + e))"
    unfolding S_def
    using rel_err_step [OF f e m0, of "(1 - e) * (1 - e)" "A + P" "(1 + e) * (1 + e)"] AP e0 by simp
  have Nb: "of_int n * (1 - e) \<le> N \<and> N \<le> of_int n * (1 + e)"
    unfolding N_def using rel_err_step [OF f e less_imp_le [OF rn], of 1 "of_int n" 1] by simp
  have "0 < of_int n * (1 - e)" using rn e0 by simp
  with Nb have Npos: "0 < N" by linarith
  have lo3: "0 \<le> (1 - e) * (1 - e) * (1 - e)" using e0 by simp
  have "0 \<le> m * ((1 - e) * (1 - e) * (1 - e))" using m0 lo3 by (rule mult_nonneg_nonneg)
  with S have S0: "0 \<le> S" by linarith
  have qlo: "m / of_int n * ((1 - e) * (1 - e) * (1 - e) / (1 + e)) \<le> S / N"
  proof -
    have "m * ((1 - e) * (1 - e) * (1 - e)) / (of_int n * (1 + e)) \<le> S / (of_int n * (1 + e))"
      using S rn e0 by (intro divide_right_mono) simp_all
    also have "\<dots> \<le> S / N"
      using Nb Npos S0 by (intro divide_left_mono) (simp_all add: mult_pos_pos rn e0)
    finally show ?thesis by (simp add: field_simps)
  qed
  have qhi: "S / N \<le> m / of_int n * ((1 + e) * (1 + e) * (1 + e) / (1 - e))"
  proof -
    have d: "0 < of_int n * (1 - e)" using rn e0 by simp
    have "S / N \<le> S / (of_int n * (1 - e))"
      using Nb Npos S0 d by (intro divide_left_mono) simp_all
    also have "\<dots> \<le> m * ((1 + e) * (1 + e) * (1 + e)) / (of_int n * (1 - e))"
      using S d by (intro divide_right_mono) simp_all
    finally show ?thesis by (simp add: field_simps)
  qed
  have mn: "0 \<le> m / of_int n" using m0 rn by simp
  have lo4: "0 \<le> (1 - e) * (1 - e) * (1 - e) / (1 + e)" using e0 by simp
  have E: "m / of_int n * ((1 - e) * (1 - e) * (1 - e) / (1 + e) * (1 - e)) \<le> ?f (S / N)
         \<and> ?f (S / N) \<le> m / of_int n * ((1 + e) * (1 + e) * (1 + e) / (1 - e) * (1 + e))"
    using rel_err_step [OF f e mn lo4 qlo qhi] .
  have eq: "equity_of W a t n = ?f (S / N)"
    by (simp add: equity_of_def float_of_int_def S_def A_def P_def T_def N_def)
  have p1: "(1 - e) * (1 - e) * (1 - e) / (1 + e) * (1 - e) = (1 - e) ^ 4 / (1 + e)"
    by (simp add: power4_eq_xxxx)
  have p2: "(1 + e) * (1 + e) * (1 + e) / (1 - e) * (1 + e) = (1 + e) ^ 4 / (1 - e)"
    by (simp add: power4_eq_xxxx)
  from E show ?thesis unfolding eq m_def p1 p2 .
qed

text \<open>The accumulated factors of four and of five roundings stay within the tolerance.\<close>

lemma bound_consts:
  assumes e: "e = (1::real) / 2 ^ 53"
  shows "1 - 1 / 10 ^ 9 \<le> (1 - e) ^ 4 / (1 + e)" and "(1 + e) ^ 4 / (1 - e) \<le> 1 + 1 / 10 ^ 9"
  unfolding e by (simp_all add: field_simps)


lemma bound_consts5:
  assumes e: "e = (1::real) / 2 ^ 53"
  shows "1 - 1 / 10 ^ 9 \<le> (1 - e) ^ 4 / (1 + e) * (1 - e)" and "(1 + e) ^ 4 / (1 - e) * (1 + e) \<le> 1 + 1 / 10 ^ 9"
  unfolding e by (simp_all add: field_simps)

lemma equity_sum_bounds:
  assumes f: "rel_err (fl W)" and h: "0 \<le> h" and v: "0 \<le> v" and t: "0 \<le> t" and n: "0 < h + v + t"
  shows "\<bar>equity_of W h t (h + v + t) + equity_of W v t (h + v + t) - 1\<bar> \<le> 1 / 10 ^ 9"
    and "\<bar>fl W (equity_of W h t (h + v + t) + equity_of W v t (h + v + t)) - 1\<bar> \<le> 1 / 10 ^ 9"
proof -
  define e :: real where "e = 1 / 2 ^ 53"
  define L where "L = (1 - e) ^ 4 / (1 + e)"
  define U where "U = (1 + e) ^ 4 / (1 - e)"
  define x1 :: real where "x1 = (of_int h + of_int t / 2) / of_int (h + v + t)"
  define x2 :: real where "x2 = (of_int v + of_int t / 2) / of_int (h + v + t)"
  define E1 where "E1 = equity_of W h t (h + v + t)"
  define E2 where "E2 = equity_of W v t (h + v + t)"
  have e0: "0 < e" "e < 1" by (simp_all add: e_def)
  have L0: "0 \<le> L" using e0 by (simp add: L_def)
  have b1: "x1 * L \<le> E1 \<and> E1 \<le> x1 * U"
    unfolding x1_def L_def U_def E1_def by (rule equity_of_bounds [OF f e_def h t n])
  have b2: "x2 * L \<le> E2 \<and> E2 \<le> x2 * U"
    unfolding x2_def L_def U_def E2_def by (rule equity_of_bounds [OF f e_def v t n])
  have "(of_int (h + v + t) :: real) \<noteq> 0" using n by simp
  then have one: "x1 + x2 = 1"
    unfolding x1_def x2_def add_divide_distrib [symmetric] by simp
  have "(x1 + x2) * L \<le> E1 + E2 \<and> E1 + E2 \<le> (x1 + x2) * U"
    unfolding distrib_right using b1 b2 by linarith
  then have s: "1 * L \<le> E1 + E2 \<and> E1 + E2 \<le> 1 * U" unfolding one .
  have c: "1 - 1 / 10 ^ 9 \<le> L" "U \<le> 1 + 1 / 10 ^ 9"
    unfolding L_def U_def by (rule bound_consts [OF e_def])+
  from s have s1: "L \<le> E1 + E2" and s2: "E1 + E2 \<le> U" by simp_all
  from s1 s2 c show "\<bar>E1 + E2 - 1\<bar> \<le> 1 / 10 ^ 9" by linarith
  have r: "1 * (L * (1 - e)) \<le> fl W (E1 + E2) \<and> fl W (E1 + E2) \<le> 1 * (U * (1 + e))"
    by (rule rel_err_step [OF f e_def _ L0]) (use s in simp_all)
  have c5: "1 - 1 / 10 ^ 9 \<le> L * (1 - e)" "U * (1 + e) \<le> 1 + 1 / 10 ^ 9"
    unfolding L_def U_def by (rule bound_consts5 [OF e_def])+
  from r have r1: "L * (1 - e) \<le> fl W (E1 + E2)" and r2: "fl W (E1 + E2) \<le> U * (1 + e)"
    by simp_all
  from r1 r2 c5 show "\<bar>fl W (E1 + E2) - 1\<bar> \<le> 1 / 10 ^ 9" by linarith
qed

lemma trial_nonneg:
  assumes "trial W hs vs board (h, v, t, g) = Inr (h', v', t', g')"
    and "0 \<le> h" "0 \<le> v" "0 \<le> t"
  shows "0 \<le> h' \<and> 0 \<le> v' \<and> 0 \<le> t'"
  using assms
  by (auto simp: trial_def showdown_def Let_def split: sum.splits prod.splits if_splits)

lemma trials_nonneg:
  "trials W hs vs board k (h, v, t, g) = Inr (h', v', t', g') \<Longrightarrow>
   0 \<le> h \<Longrightarrow> 0 \<le> v \<Longrightarrow> 0 \<le> t \<Longrightarrow> 0 \<le> h' \<and> 0 \<le> v' \<and> 0 \<le> t'"
proof (induction k arbitrary: h v t g)
  case 0
  then show ?case by simp
next
  case (Suc k)
  from Suc.prems(1) obtain h1 v1 t1 g1 where
    step: "trial W hs vs board (h, v, t, g) = Inr (h1, v1, t1, g1)" and
    rest: "trials W hs vs board k (h1, v1, t1, g1) = Inr (h', v', t', g')"
    by (auto split: sum.splits)
  from trial_nonneg [OF step Suc.prems(2-4)] Suc.IH [OF rest] show ?case by simp
qed

text \<open>
  Claim C1. Whenever \<open>equity_hu\<close> returns a result, the number of completed trials is
  positive and is the sum of the three counters, each equity is the rounded value of
  \<^verbatim>\<open>(wins + 0.5 * ties) / completed\<close>, and the two equities add up to 1 within \<open>10\<^sup>-\<^sup>9\<close>, both
  as an exact sum and as a sum rounded once more, for every rounding with relative error at
  most \<open>2\<^sup>-\<^sup>5\<^sup>3\<close>.
\<close>

theorem equity_hu_sum_one:
  assumes "rel_err (fl W)"
    and "equity_hu W hero_src vill_src board0 iters_arg seed entropy = Inr res"
  shows "0 < iters res \<and>
         iters res = hero_wins res + villain_wins res + ties res \<and>
         hero_equity res = equity_of W (hero_wins res) (ties res) (iters res) \<and>
         villain_equity res = equity_of W (villain_wins res) (ties res) (iters res) \<and>
         \<bar>hero_equity res + villain_equity res - 1\<bar> \<le> 1 / 10 ^ 9 \<and>
         \<bar>fl W (hero_equity res + villain_equity res) - 1\<bar> \<le> 1 / 10 ^ 9"
proof -
  from assms(2) obtain hs vs board rng h v t rng' where
    run: "trials W hs vs board (nat iters_arg) (0, 0, 0, rng) = Inr (h, v, t, rng')" and
    nz: "h + v + t \<noteq> 0" and
    res: "res = \<lparr>hero_equity = equity_of W h t (h + v + t),
                 villain_equity = equity_of W v t (h + v + t),
                 hero_wins = h, villain_wins = v, ties = t, iters = h + v + t\<rparr>"
    by (auto simp: equity_hu_def Let_def split: sum.splits if_splits prod.splits)
  from trials_nonneg [OF run] have nn: "0 \<le> h" "0 \<le> v" "0 \<le> t" by simp_all
  with nz have pos: "0 < h + v + t" by linarith
  from equity_sum_bounds [OF assms(1) nn pos] pos show ?thesis
    unfolding res by simp
qed

theorem equity_hu_sum_one_witness:
  "rel_err (fl small_world) \<and>
   equity_hu small_world (Text ''AsKs'') (Text ''AhKh,QhQd,AdAc'') None 3 (Some 0) 7
     = Inr \<lparr>hero_equity = 2 / 3, villain_equity = 1 / 3,
            hero_wins = 1, villain_wins = 0, ties = 2, iters = 3\<rparr> \<and>
   \<bar>(2 / 3 :: real) + 1 / 3 - 1\<bar> \<le> 1 / 10 ^ 9"
proof -
  have run: "equity_hu small_world (Text ''AsKs'') (Text ''AhKh,QhQd,AdAc'') None 3 (Some 0) 7
     = Inr \<lparr>hero_equity = 2 / 3, villain_equity = 1 / 3,
            hero_wins = 1, villain_wins = 0, ties = 2, iters = 3\<rparr>"
    by (rule equity_hu_three)
  from equity_hu_sum_one [OF rel_err_small_world run] rel_err_small_world run
  show ?thesis by simp
qed

subsection \<open>Deck completion\<close>

lemma distinct_Deck: "distinct Deck"
  by (simp add: Deck_def ranks_def suits_def)

lemma length_Deck: "length Deck = 52"
  by (simp add: Deck_def ranks_def suits_def)

lemma set_Deck: "set Deck = UNIV"
proof -
  have "c \<in> set Deck" for c
  proof (cases c)
    case (Card r s)
    then show ?thesis
      by (cases r; cases s) (simp_all add: Deck_def ranks_def suits_def)
  qed
  then show ?thesis by blast
qed

lemma length_live_deck: "length (filter (\<lambda>c. c \<notin> set dead) Deck) = 52 - card (set dead)"
proof -
  have "length (filter (\<lambda>c. c \<notin> set dead) Deck) = card (set (filter (\<lambda>c. c \<notin> set dead) Deck))"
    using distinct_Deck by (metis distinct_card distinct_filter)
  also have "set (filter (\<lambda>c. c \<notin> set dead) Deck) = UNIV - set dead"
    using set_Deck by auto
  also have "card (UNIV - set dead) = card (UNIV :: card set) - card (set dead)"
    by (rule card_Diff_subset) simp_all
  also have "card (UNIV :: card set) = 52"
    using distinct_Deck length_Deck set_Deck by (metis distinct_card)
  finally show ?thesis .
qed

text \<open>
  Claim C6, as the code has it. With a shuffle that permutes, \<open>deal_remaining\<close> never fails:
  it returns pairwise distinct cards, none of them dead, and as many as the slice
  \<^verbatim>\<open>deck[:n]\<close> of the \<open>52 - |dead|\<close> remaining cards holds: \<open>n\<close> of them when \<open>0 \<le> n\<close> and that
  many remain, all the remaining cards when fewer than \<open>n\<close> remain.
\<close>

theorem deal_remaining_cards:
  assumes "shuffles W"
  shows "distinct (fst (deal_remaining W dead n rng)) \<and>
         set (fst (deal_remaining W dead n rng)) \<inter> set dead = {} \<and>
         length (fst (deal_remaining W dead n rng)) =
           (if 0 \<le> n then min (nat n) (52 - card (set dead))
            else 52 - card (set dead) - nat (- n))"
proof -
  define deck where "deck = filter (\<lambda>c. c \<notin> set dead) Deck"
  define deck' where "deck' = fst (rng_shuffle W rng deck)"
  have perm: "mset deck' = mset deck"
    using assms by (simp add: shuffles_def deck'_def)
  have cs: "fst (deal_remaining W dead n rng) = slice_to n deck'"
    by (simp add: deal_remaining_def deck_def deck'_def split: prod.splits)
  have d: "distinct deck'"
    using perm distinct_Deck by (metis deck_def distinct_filter mset_eq_imp_distinct_iff)
  have "set deck' = set deck" using perm by (rule mset_eq_setD)
  then have s: "set deck' \<inter> set dead = {}" by (auto simp: deck_def)
  have l: "length deck' = 52 - card (set dead)"
    using perm length_live_deck [of dead] by (metis deck_def size_mset)
  have sub: "set (slice_to n deck') \<subseteq> set deck'"
    by (auto simp: slice_to_def dest: in_set_takeD)
  have "distinct (slice_to n deck')" using d by (simp add: slice_to_def)
  moreover have "set (slice_to n deck') \<inter> set dead = {}" using s sub by blast
  moreover have "length (slice_to n deck') =
           (if 0 \<le> n then min (nat n) (52 - card (set dead))
            else 52 - card (set dead) - nat (- n))"
    using l by (simp add: slice_to_def min_def)
  ultimately show ?thesis unfolding cs by blast
qed

lemma shuffles_small_world: "shuffles small_world"
  by (simp add: shuffles_def small_world_def)

text \<open>Asked for 53 cards of the full deck, \<open>deal_remaining\<close> returns the 52 there are.\<close>

theorem deal_remaining_cards_counterexample:
  "fst (deal_remaining small_world [] 53 0) = rev Deck \<and> length (rev Deck) \<noteq> 53"
  by (simp add: deal_remaining_def small_world_def slice_to_def length_Deck)

theorem deal_remaining_cards_witness:
  "shuffles small_world \<and>
   fst (deal_remaining small_world [Card Ace Spades, Card King Spades] 5 0)
     = [Card Ace Hearts, Card Ace Diamonds, Card Ace Clubs, Card King Hearts, Card King Diamonds] \<and>
   distinct (fst (deal_remaining small_world [Card Ace Spades, Card King Spades] 5 0)) \<and>
   set (fst (deal_remaining small_world [Card Ace Spades, Card King Spades] 5 0))
     \<inter> set [Card Ace Spades, Card King Spades] = {} \<and>
   length (fst (deal_remaining small_world [Card Ace Spades, Card King Spades] 5 0)) = 5"
proof -
  have v: "fst (deal_remaining small_world [Card Ace Spades, Card King Spades] 5 0)
     = [Card Ace Hearts, Card Ace Diamonds, Card Ace Clubs, Card King Hearts, Card King Diamonds]"
    by (simp add: deal_remaining_def Deck_def ranks_def suits_def slice_to_def small_world_def)
  from deal_remaining_cards [OF shuffles_small_world, of "[Card Ace Spades, Card King Spades]" 5 0]
    shuffles_small_world v
  show ?thesis by simp
qed

subsection \<open>The weighted draw\<close>

lemma walk_stops:
  "walk f r a live = Some c \<Longrightarrow>
   \<exists>k<length live. c = fst (live ! k) \<and>
      r \<le> foldl (\<lambda>a w. f (a + w)) a (map snd (take (Suc k) live)) \<and>
      (\<forall>j<k. foldl (\<lambda>a w. f (a + w)) a (map snd (take (Suc j) live)) < r)"
proof (induction live arbitrary: a)
  case Nil
  then show ?case by simp
next
  case (Cons x live)
  obtain combo w where x: "x = (combo, w)" by (cases x)
  show ?case
  proof (cases "r \<le> f (a + w)")
    case True
    with Cons.prems x have "c = combo" by simp
    with True x have "c = fst ((x # live) ! 0) \<and>
        r \<le> foldl (\<lambda>a w. f (a + w)) a (map snd (take (Suc 0) (x # live)))"
      by simp
    then show ?thesis by (intro exI [of _ 0]) simp
  next
    case False
    with Cons.prems x have "walk f r (f (a + w)) live = Some c" by simp
    from Cons.IH [OF this] obtain k where k: "k < length live" "c = fst (live ! k)"
      "r \<le> foldl (\<lambda>a w. f (a + w)) (f (a + w)) (map snd (take (Suc k) live))"
      "\<forall>j<k. foldl (\<lambda>a w. f (a + w)) (f (a + w)) (map snd (take (Suc j) live)) < r"
      by blast
    have "\<forall>j<Suc k. foldl (\<lambda>a w. f (a + w)) a (map snd (take (Suc j) (x # live))) < r"
    proof (intro allI impI)
      fix j assume "j < Suc k"
      then show "foldl (\<lambda>a w. f (a + w)) a (map snd (take (Suc j) (x # live))) < r"
        using False k(4) x by (cases j) simp_all
    qed
    with k(1-3) x show ?thesis by (intro exI [of _ "Suc k"]) simp
  qed
qed

lemma walk_falls_through:
  "walk f r a live = None \<Longrightarrow>
   \<forall>j<length live. foldl (\<lambda>a w. f (a + w)) a (map snd (take (Suc j) live)) < r"
proof (induction live arbitrary: a)
  case Nil
  then show ?case by simp
next
  case (Cons x live)
  obtain combo w where x: "x = (combo, w)" by (cases x)
  from Cons.prems x have no: "\<not> r \<le> f (a + w)" and rest: "walk f r (f (a + w)) live = None"
    by (simp_all add: Let_def split: if_splits)
  show ?case
  proof (intro allI impI)
    fix j assume "j < length (x # live)"
    then show "foldl (\<lambda>a w. f (a + w)) a (map snd (take (Suc j) (x # live))) < r"
      using no Cons.IH [OF rest] x by (cases j) simp_all
  qed
qed

lemma sample_range_cases:
  assumes "is_range S"
    and "live_combos (fl W) (set dead) (hr S) [] = Inr live" and "live \<noteq> []"
    and "rng_random W rng = (u, rng')"
    and "r = fl W (u * float_sum W (map snd live))"
  shows "(\<exists>k<length live. sample W S rng dead = Inr (hand_of (live ! k), rng') \<and>
            r \<le> acc_after (fl W) live k \<and> (\<forall>j<k. acc_after (fl W) live j < r))
       \<or> (sample W S rng dead = Inr (hand_of (last live), rng') \<and>
            (\<forall>j<length live. acc_after (fl W) live j < r))"
proof (cases "walk (fl W) r 0 live")
  case None
  with assms have "sample W S rng dead = Inr (hand_of (last live), rng')"
    by (simp add: sample_def hand_of_def)
  moreover from walk_falls_through [OF None]
  have "\<forall>j<length live. acc_after (fl W) live j < r"
    by (simp add: acc_after_def)
  ultimately show ?thesis by blast
next
  case (Some c)
  from walk_stops [OF Some] obtain k where k: "k < length live" "c = fst (live ! k)"
    "r \<le> acc_after (fl W) live k" "\<forall>j<k. acc_after (fl W) live j < r"
    unfolding acc_after_def by blast
  from assms Some k(2) have "sample W S rng dead = Inr (hand_of (live ! k), rng')"
    by (simp add: sample_def hand_of_def split: prod.splits)
  with k show ?thesis by blast
qed


lemma rounding_monotone: "rounding f \<Longrightarrow> monotone_rounding f"
  by (simp add: rounding_def monotone_rounding_def)

lemma rounding_zero: "monotone_rounding f \<Longrightarrow> f 0 = 0"
  by (simp add: monotone_rounding_def)

lemma rounding_idem: "monotone_rounding f \<Longrightarrow> f (f x) = f x"
  by (simp add: monotone_rounding_def)

lemma rounding_mono: "monotone_rounding f \<Longrightarrow> x \<le> y \<Longrightarrow> f x \<le> f y"
  by (simp add: monotone_rounding_def)

lemma rounding_nonneg: "monotone_rounding f \<Longrightarrow> 0 \<le> x \<Longrightarrow> 0 \<le> f x"
  using rounding_mono [of f 0 x] by (simp add: rounding_zero)

lemma acc_after_0: "live \<noteq> [] \<Longrightarrow> acc_after f live 0 = f (snd (live ! 0))"
  by (cases live) (simp_all add: acc_after_def)

lemma acc_after_Suc:
  "Suc k < length live \<Longrightarrow>
   acc_after f live (Suc k) = f (acc_after f live k + snd (live ! Suc k))"
  by (simp add: acc_after_def take_Suc_conv_app_nth [of "Suc k"])

lemma acc_after_last:
  "sum_left W \<Longrightarrow> live \<noteq> [] \<Longrightarrow>
   acc_after (fl W) live (length live - Suc 0) = float_sum W (map snd live)"
  by (simp add: acc_after_def sum_left_def)

lemma acc_after_fixed:
  assumes "monotone_rounding f" and "k < length live"
  shows "f (acc_after f live k) = acc_after f live k"
proof (cases k)
  case 0
  with assms show ?thesis by (simp add: acc_after_0 rounding_idem)
next
  case (Suc j)
  with assms show ?thesis by (simp add: acc_after_Suc rounding_idem)
qed

lemma acc_after_nonneg:
  assumes "monotone_rounding f" and "\<forall>x\<in>set live. 0 \<le> snd x"
  shows "k < length live \<Longrightarrow> 0 \<le> acc_after f live k"
proof (induction k)
  case 0
  then have "0 \<le> snd (live ! 0)" using assms(2) by simp
  then have "0 \<le> f (snd (live ! 0))" by (rule rounding_nonneg [OF assms(1)])
  with 0 show ?case by (simp add: acc_after_0)
next
  case (Suc k)
  then have "0 \<le> acc_after f live k" and "0 \<le> snd (live ! Suc k)"
    using assms(2) by simp_all
  then have "0 \<le> f (acc_after f live k + snd (live ! Suc k))"
    by (intro rounding_nonneg [OF assms(1)]) simp
  with Suc.prems show ?case by (simp add: acc_after_Suc)
qed

lemma scaled_draw_bounds:
  fixes live :: "((card \<times> card) \<times> real) list"
  assumes f: "monotone_rounding (fl W)" and s: "sum_left W"
    and w: "\<forall>x\<in>set live. 0 \<le> snd x" and ne: "live \<noteq> []"
    and u: "0 \<le> u" "u < 1"
  shows "0 \<le> fl W (u * float_sum W (map snd live)) \<and>
         fl W (u * float_sum W (map snd live)) \<le> float_sum W (map snd live)"
proof -
  let ?t = "float_sum W (map snd live)"
  have k: "length live - Suc 0 < length live" using ne by simp
  have t0: "0 \<le> ?t"
    using acc_after_nonneg [OF f w k] by (simp add: acc_after_last [OF s ne])
  have stable: "fl W ?t = ?t"
    using acc_after_fixed [OF f k] by (simp add: acc_after_last [OF s ne])
  have "0 \<le> u * ?t" using u t0 by simp
  then have lower: "0 \<le> fl W (u * ?t)" by (rule rounding_nonneg [OF f])
  have "u * ?t \<le> ?t" using u t0 by (simp add: mult_left_le_one_le)
  then have "fl W (u * ?t) \<le> fl W ?t" by (rule rounding_mono [OF f])
  with stable lower show ?thesis by simp
qed



lemma rounding_small_world: "rounding (fl small_world)"
  by (simp add: rounding_def rel_err_def small_world_def)


lemma sum_left_small_world: "sum_left small_world"
proof -
  have "foldl (\<lambda>a w. a + w) a ws = a + sum_list ws" for a :: real and ws
    by (induction ws arbitrary: a) simp_all
  then show ?thesis by (simp add: sum_left_def small_world_def)
qed

lemma rng_random_small_world: "rng_random small_world g = (real (g mod 8) / 8, g + 3)"
  by (simp add: small_world_def)


lemma live_AKs:
  "live_combos (fl small_world) (set []) (hr range_AKs) []
     = Inr [((Card Ace Clubs, Card King Clubs), 1), ((Card Ace Diamonds, Card King Diamonds), 1),
            ((Card Ace Hearts, Card King Hearts), 1), ((Card Ace Spades, Card King Spades), 1)]"
  by (simp add: range_AKs_def small_world_def)

text \<open>
  Claim C5, as the code has it. In a weighted draw \<open>r\<close> is the rounded product of the draw
  \<open>u\<close> and the total live weight. The live list is walked accumulating the weights and the
  hand returned is that of the first entry whose accumulated weight is at least \<open>r\<close>
  (\<^verbatim>\<open>r <= acc\<close>); when no accumulated weight reaches \<open>r\<close>, it is that of the last entry.
  With a rounding as above, a total added up from the left, weights that are not negative
  and \<open>0 \<le> u < 1\<close>, \<open>r\<close> lies in the closed interval from 0 to the total and such a first entry
  exists. In exact arithmetic with a positive total, \<open>r\<close> is below the total.
\<close>

theorem sample_walk_first_reached:
  assumes "is_range S"
    and "live_combos (fl W) (set dead) (hr S) [] = Inr live" and "live \<noteq> []"
    and "rng_random W rng = (u, rng')"
    and "r = fl W (u * float_sum W (map snd live))"
  shows "((\<exists>k<length live. sample W S rng dead = Inr (hand_of (live ! k), rng') \<and>
             r \<le> acc_after (fl W) live k \<and> (\<forall>j<k. acc_after (fl W) live j < r))
          \<or> (sample W S rng dead = Inr (hand_of (last live), rng') \<and>
             (\<forall>j<length live. acc_after (fl W) live j < r))) \<and>
         (rounding (fl W) \<and> sum_left W \<and> (\<forall>x\<in>set live. 0 \<le> snd x) \<and> 0 \<le> u \<and> u < 1 \<longrightarrow>
            0 \<le> r \<and> r \<le> float_sum W (map snd live) \<and>
            (\<exists>k<length live. sample W S rng dead = Inr (hand_of (live ! k), rng') \<and>
               r \<le> acc_after (fl W) live k \<and> (\<forall>j<k. acc_after (fl W) live j < r))) \<and>
         ((\<forall>x. fl W x = x) \<and> 0 \<le> u \<and> u < 1 \<and> 0 < float_sum W (map snd live) \<longrightarrow>
            0 \<le> r \<and> r < float_sum W (map snd live))"
proof (intro conjI impI)
  show cases: "(\<exists>k<length live. sample W S rng dead = Inr (hand_of (live ! k), rng') \<and>
             r \<le> acc_after (fl W) live k \<and> (\<forall>j<k. acc_after (fl W) live j < r))
          \<or> (sample W S rng dead = Inr (hand_of (last live), rng') \<and>
             (\<forall>j<length live. acc_after (fl W) live j < r))"
    by (rule sample_range_cases [OF assms])
  {
    assume h: "rounding (fl W) \<and> sum_left W \<and> (\<forall>x\<in>set live. 0 \<le> snd x) \<and> 0 \<le> u \<and> u < 1"
    then have b: "0 \<le> r \<and> r \<le> float_sum W (map snd live)"
      unfolding assms(5)
      using scaled_draw_bounds [of W live u] rounding_monotone [of "fl W"] assms(3) by blast
    then show "0 \<le> r" and "r \<le> float_sum W (map snd live)" by simp_all
    have "\<not> (\<forall>j<length live. acc_after (fl W) live j < r)"
    proof
      assume "\<forall>j<length live. acc_after (fl W) live j < r"
      then have "acc_after (fl W) live (length live - Suc 0) < r" using assms(3) by simp
      with b h show False by (simp add: acc_after_last [OF _ assms(3)])
    qed
    with cases show "\<exists>k<length live. sample W S rng dead = Inr (hand_of (live ! k), rng') \<and>
               r \<le> acc_after (fl W) live k \<and> (\<forall>j<k. acc_after (fl W) live j < r)"
      by blast
  }
  {
    assume h: "(\<forall>x. fl W x = x) \<and> 0 \<le> u \<and> u < 1 \<and> 0 < float_sum W (map snd live)"
    then have r: "r = u * float_sum W (map snd live)" using assms(5) by simp
    from h show "0 \<le> r" unfolding r by simp
    from h show "r < float_sum W (map snd live)" unfolding r by simp
  }
qed

text \<open>With four entries of weight 1 and the draw \<open>1/4\<close>, \<open>r\<close> is 1 and the first entry, whose
  accumulated weight is 1 and not more, is returned.\<close>

theorem sample_walk_first_reached_counterexample:
  "live_combos (fl small_world) (set []) (hr range_AKs) []
     = Inr [((Card Ace Clubs, Card King Clubs), 1), ((Card Ace Diamonds, Card King Diamonds), 1),
            ((Card Ace Hearts, Card King Hearts), 1), ((Card Ace Spades, Card King Spades), 1)] \<and>
   fl small_world (fst (rng_random small_world 2) *
      float_sum small_world (map snd
        [((Card Ace Clubs, Card King Clubs), 1 :: real),
         ((Card Ace Diamonds, Card King Diamonds), 1),
         ((Card Ace Hearts, Card King Hearts), 1),
         ((Card Ace Spades, Card King Spades), 1)])) = 1 \<and>
   acc_after (fl small_world)
     [((Card Ace Clubs, Card King Clubs), 1), ((Card Ace Diamonds, Card King Diamonds), 1),
      ((Card Ace Hearts, Card King Hearts), 1), ((Card Ace Spades, Card King Spades), 1)] 0 = 1 \<and>
   sample small_world range_AKs 2 [] = Inr ([Card Ace Clubs, Card King Clubs], 5)"
proof -
  have "sample small_world range_AKs 2 [] = Inr ([Card Ace Clubs, Card King Clubs], 5)"
    by (simp add: sample_def range_AKs_def small_world_def)
  then show ?thesis
    using live_AKs by (simp add: acc_after_def small_world_def)
qed

theorem sample_walk_first_reached_witness:
  "is_range range_AKs \<and>
   rng_random small_world 5 = (5 / 8, 8) \<and>
   rounding (fl small_world) \<and> sum_left small_world \<and>
   sample small_world range_AKs 5 [] = Inr ([Card Ace Hearts, Card King Hearts], 8) \<and>
   (\<exists>k<4. sample small_world range_AKs 5 []
             = Inr (hand_of ([((Card Ace Clubs, Card King Clubs), 1 :: real),
                              ((Card Ace Diamonds, Card King Diamonds), 1),
                              ((Card Ace Hearts, Card King Hearts), 1),
                              ((Card Ace Spades, Card King Spades), 1)] ! k), 8))"
proof -
  let ?L = "[((Card Ace Clubs, Card King Clubs), 1 :: real),
             ((Card Ace Diamonds, Card King Diamonds), 1),
             ((Card Ace Hearts, Card King Hearts), 1),
             ((Card Ace Spades, Card King Spades), 1)]"
  have rg: "is_range range_AKs" by (simp add: range_AKs_def)
  have ne: "?L \<noteq> []" by simp
  have u: "rng_random small_world 5 = (5 / 8, 8)" by (simp add: rng_random_small_world)
  have run: "sample small_world range_AKs 5 [] = Inr ([Card Ace Hearts, Card King Hearts], 8)"
    by (simp add: sample_def range_AKs_def small_world_def)
  have hyp: "rounding (fl small_world) \<and> sum_left small_world \<and> (\<forall>x\<in>set ?L. 0 \<le> snd x)
      \<and> (0::real) \<le> 5 / 8 \<and> (5 / 8 :: real) < 1"
    using rounding_small_world sum_left_small_world by simp
  from sample_walk_first_reached [OF rg live_AKs ne u refl] hyp
  obtain k where "k < length ?L"
    and "sample small_world range_AKs 5 [] = Inr (hand_of (?L ! k), 8)"
    by blast
  then have "\<exists>k<4. sample small_world range_AKs 5 [] = Inr (hand_of (?L ! k), 8)"
    by (intro exI [of _ k]) simp
  with rg u rounding_small_world sum_left_small_world run show ?thesis by blast
qed




subsection \<open>What the live list admits\<close>

lemma live_combos_skip_degenerate:
  "live_combos f D (filter (\<lambda>it. \<not> degenerate it) items) acc = live_combos f D items acc"
proof (induction items arbitrary: acc)
  case Nil
  then show ?case by simp
next
  case (Cons it items)
  show ?case
  proof (cases "unpack it")
    case (Inl e)
    then show ?thesis by (simp add: degenerate_def)
  next
    case (Inr p)
    obtain a b v where "p = ((a, b), v)" by (metis surj_pair)
    with Inr Cons.IH show ?thesis by (simp add: degenerate_def)
  qed
qed

lemma live_combos_extends:
  "live_combos f D items acc = Inr live \<Longrightarrow> set acc \<subseteq> set live"
proof (induction items arbitrary: acc)
  case Nil
  then show ?case by simp
next
  case (Cons it items)
  show ?case
  proof (cases "unpack it")
    case (Inl e)
    with Cons.prems show ?thesis by simp
  next
    case (Inr p)
    obtain a b v where p: "p = ((a, b), v)" by (metis surj_pair)
    show ?thesis
    proof (cases "a \<in> D \<or> b \<in> D \<or> a = b")
      case True
      with Cons.prems Inr p have "live_combos f D items acc = Inr live"
        by (auto split: if_splits)
      from Cons.IH [OF this] show ?thesis .
    next
      case False
      with Cons.prems Inr p
      have "live_combos f D items (acc @ [((a, b), f v)]) = Inr live" by simp
      from Cons.IH [OF this] show ?thesis by simp
    qed
  qed
qed

lemma live_combos_keeps:
  "live_combos f D items acc = Inr live \<Longrightarrow> it \<in> set items \<Longrightarrow>
   unpack it = Inr ((c1, c2), w) \<Longrightarrow> c1 \<notin> D \<Longrightarrow> c2 \<notin> D \<Longrightarrow> c1 \<noteq> c2 \<Longrightarrow>
   ((c1, c2), f w) \<in> set live"
proof (induction items arbitrary: acc)
  case Nil
  then show ?case by simp
next
  case (Cons x items)
  show ?case
  proof (cases "x = it")
    case True
    with Cons.prems have "live_combos f D items (acc @ [((c1, c2), f w)]) = Inr live"
      by simp
    from live_combos_extends [OF this] show ?thesis by simp
  next
    case False
    with Cons.prems(2) have mem: "it \<in> set items" by simp
    from Cons.prems(1) obtain acc' where "live_combos f D items acc' = Inr live"
      by (auto split: sum.splits if_splits)
    from Cons.IH [OF this mem Cons.prems(3-6)] show ?thesis .
  qed
qed

text \<open>
  Claim C9, as the code has it. An element whose two cards are the same card is skipped
  without an error and takes no part in a draw: sampling gives the same outcome as for the
  range without such elements, and a hand drawn from a range has two different cards. The
  weights are not examined: every well-formed element with two different live cards
  enters the live list with the weight \<^verbatim>\<open>float(w)\<close>, whatever its sign.
\<close>

theorem degenerate_skipped_weights_kept:
  "sample W (S\<lparr>hr := filter (\<lambda>it. \<not> degenerate it) (hr S)\<rparr>) rng dead = sample W S rng dead \<and>
   (is_range S \<and> sample W S rng dead = Inr (cs, rng') \<longrightarrow>
      (\<exists>c1 c2. cs = [c1, c2] \<and> c1 \<noteq> c2)) \<and>
   (live_combos (fl W) (set dead) (hr S) [] = Inr live \<and> it \<in> set (hr S) \<and>
    unpack it = Inr ((c1, c2), w) \<and> c1 \<notin> set dead \<and> c2 \<notin> set dead \<and> c1 \<noteq> c2 \<longrightarrow>
      ((c1, c2), fl W w) \<in> set live)"
proof (intro conjI impI)
  show "sample W (S\<lparr>hr := filter (\<lambda>it. \<not> degenerate it) (hr S)\<rparr>) rng dead = sample W S rng dead"
    by (simp add: sample_def Let_def live_combos_skip_degenerate)
next
  assume "is_range S \<and> sample W S rng dead = Inr (cs, rng')"
  then have rg: "is_range S" and ok: "sample W S rng dead = Inr (cs, rng')" by simp_all
  then obtain live where
    live: "live_combos (fl W) (set dead) (hr S) [] = Inr live" and ne: "live \<noteq> []"
    by (auto simp: sample_def Let_def split: sum.splits if_splits)
  have inv: "\<And>a b v. ((a, b), v) \<in> set live \<Longrightarrow> a \<noteq> b"
    using live_combos_inv [OF live] by simp
  obtain a b where cs: "cs = [a, b]" and mem: "(a, b) \<in> fst ` set live"
    using ok rg live ne
    by (auto simp: sample_def Let_def split: prod.splits option.splits dest!: walk_in_live)
  from mem inv have "a \<noteq> b" by auto
  with cs show "\<exists>c1 c2. cs = [c1, c2] \<and> c1 \<noteq> c2" by blast
next
  assume "live_combos (fl W) (set dead) (hr S) [] = Inr live \<and> it \<in> set (hr S) \<and>
    unpack it = Inr ((c1, c2), w) \<and> c1 \<notin> set dead \<and> c2 \<notin> set dead \<and> c1 \<noteq> c2"
  then show "((c1, c2), fl W w) \<in> set live"
    using live_combos_keeps [of "fl W" "set dead" "hr S" "[]" live it c1 c2 w] by blast
qed

text \<open>A range with a same-card element and a negative weight is sampled without an error,
  and the hand of negative weight is returned.\<close>

theorem degenerate_skipped_weights_kept_counterexample:
  "hr range_odd = [Nested (Card Ace Spades, Card Ace Spades) 1,
                   Nested (Card King Spades, Card King Diamonds) (- 1)] \<and>
   live_combos (fl small_world) (set []) (hr range_odd) []
     = Inr [((Card King Spades, Card King Diamonds), - 1)] \<and>
   sample small_world range_odd 1 [] = Inr ([Card King Spades, Card King Diamonds], 4)"
  by (simp add: sample_def range_odd_def small_world_def)

theorem degenerate_skipped_weights_kept_witness:
  "is_range range_odd \<and>
   sample small_world range_odd 1 [] = Inr ([Card King Spades, Card King Diamonds], 4) \<and>
   sample small_world (range_odd\<lparr>hr := filter (\<lambda>it. \<not> degenerate it) (hr range_odd)\<rparr>) 1 []
     = Inr ([Card King Spades, Card King Diamonds], 4) \<and>
   Card King Spades \<noteq> Card King Diamonds \<and>
   live_combos (fl small_world) (set []) (hr range_odd) []
     = Inr [((Card King Spades, Card King Diamonds), - 1)] \<and>
   ((Card King Spades, Card King Diamonds), fl small_world (- 1))
      \<in> set [((Card King Spades, Card King Diamonds), - 1 :: real)]"
proof -
  have rg: "is_range range_odd" by (simp add: range_odd_def)
  have run: "sample small_world range_odd 1 [] = Inr ([Card King Spades, Card King Diamonds], 4)"
    by (simp add: sample_def range_odd_def small_world_def)
  have live: "live_combos (fl small_world) (set []) (hr range_odd) []
     = Inr [((Card King Spades, Card King Diamonds), - 1)]"
    by (simp add: range_odd_def small_world_def)
  have it: "Nested (Card King Spades, Card King Diamonds) (- 1) \<in> set (hr range_odd)"
    and un: "unpack (Nested (Card King Spades, Card King Diamonds) (- 1))
              = Inr ((Card King Spades, Card King Diamonds), - 1)"
    and d: "Card King Spades \<notin> set []" "Card King Diamonds \<notin> set []"
           "Card King Spades \<noteq> Card King Diamonds"
    by (simp_all add: range_odd_def)
  from degenerate_skipped_weights_kept [of small_world range_odd 1 "[]"
      "[Card King Spades, Card King Diamonds]" 4
      "[((Card King Spades, Card King Diamonds), - 1)]"
      "Nested (Card King Spades, Card King Diamonds) (- 1)"
      "Card King Spades" "Card King Diamonds" "- 1"]
    rg run live it un d
  show ?thesis by simp
qed

end
